theory Spec2Isabelle
  imports Complex_Main
begin

section \<open>Conventions of the embedding\<close>

text \<open>
  The program is Python over \<^verbatim>\<open>float\<close> values and the astronomy library's
  \<^verbatim>\<open>Time\<close> objects.  The embedding fixes the following reading.

  \<^item> A Python \<^verbatim>\<open>float\<close> is a real number; infinities and NaN are not modelled.
    The scans and searches of the solvers are read with exact arithmetic.  The lines
    whose value at the edge of a range matters are written with the rounding of binary64
    (\<open>fl64\<close> below): the wrap of the azimuth difference, the wrap of the sidereal
    residual and the interpolation of the sunrise instant.
  \<^item> An instant (\<^verbatim>\<open>Time\<close>, \<^verbatim>\<open>datetime\<close>) is its Julian date, a real number of
    days, so \<^verbatim>\<open>t.jd\<close> is \<open>t\<close> itself, \<^verbatim>\<open>timedelta(hours=h)\<close> and
    \<^verbatim>\<open>h * u.hour\<close> are \<open>h / 24\<close> and \<^verbatim>\<open>timedelta(minutes=m)\<close> is \<open>m / 1440\<close>.
  \<^item> What the astronomy library computes (apparent sidereal time, the altitude of the
    Sun, the horizontal coordinates of a star, the construction of a location) is not
    code of the program: every function that calls it takes it as its first arguments.
  \<^item> A Python exception is a value of \<open>error\<close> on the left of a sum.
\<close>

datatype error = ZeroDivisionError | KeyError | ValueError

text \<open>Python's \<^verbatim>\<open>x % m\<close> on floats: the result has the sign of \<open>m\<close>.\<close>

definition py_mod :: "real \<Rightarrow> real \<Rightarrow> real" where
  "py_mod x m = x - m * of_int \<lfloor>x / m\<rfloor>"

section \<open>Binary64 arithmetic\<close>

text \<open>
  \<open>fl64 x\<close> is the double nearest to \<open>x\<close>: 53 significant bits, ties to the even
  significand, exponents from \<open>-1022\<close> (subnormal numbers below it keep the spacing
  \<open>2 powi (-1074)\<close>) to 1023.  \<open>rne\<close> rounds to the nearest integer, ties to even;
  \<open>expo x\<close> is the exponent of the binade of \<open>x\<close>, found by stepping down from 1023 and
  stopping at \<open>-1022\<close>.  Overflow to infinity is not modelled.
\<close>

definition rne :: "real \<Rightarrow> int" where
  "rne x =
     (let n = \<lfloor>x\<rfloor>; d = x - of_int n
      in if d < 1 / 2 then n else if 1 / 2 < d then n + 1 else if even n then n else n + 1)"

fun expo_from :: "nat \<Rightarrow> int \<Rightarrow> real \<Rightarrow> int" where
  "expo_from 0 e x = e"
| "expo_from (Suc n) e x = (if 2 powi e \<le> x then e else expo_from n (e - 1) x)"

definition expo :: "real \<Rightarrow> int" where
  "expo x = expo_from 2045 1023 \<bar>x\<bar>"

definition fl64 :: "real \<Rightarrow> real" where
  "fl64 x = of_int (rne (x / 2 powi (expo x - 52))) * 2 powi (expo x - 52)"

text \<open>
  The four operations round their exact result.  \<open>fmod\<close> is C's \<^verbatim>\<open>fmod\<close>, which is
  exact and has the sign of \<open>x\<close>; \<open>float_mod\<close> is \<^verbatim>\<open>x % m\<close> on floats as CPython and
  NumPy compute it: \<^verbatim>\<open>fmod\<close>, then one rounded addition of \<open>m\<close> when the signs differ.
\<close>

definition fadd :: "real \<Rightarrow> real \<Rightarrow> real" where "fadd x y = fl64 (x + y)"
definition fsub :: "real \<Rightarrow> real \<Rightarrow> real" where "fsub x y = fl64 (x - y)"
definition fmul :: "real \<Rightarrow> real \<Rightarrow> real" where "fmul x y = fl64 (x * y)"
definition fdiv :: "real \<Rightarrow> real \<Rightarrow> real" where "fdiv x y = fl64 (x / y)"

definition fmod :: "real \<Rightarrow> real \<Rightarrow> real" where
  "fmod x m = x - m * of_int (if 0 \<le> x / m then \<lfloor>x / m\<rfloor> else \<lceil>x / m\<rceil>)"

definition float_mod :: "real \<Rightarrow> real \<Rightarrow> real" where
  "float_mod x m =
     (let r = fmod x m
      in if r \<noteq> 0 \<and> ((m < 0) \<noteq> (r < 0)) then fl64 (r + m) else r)"

section \<open>Traditional units of the day (app.py, main)\<close>

text \<open>
  \<^verbatim>\<open>ghati_sec = 24 * 60\<close>, \<^verbatim>\<open>ghati = seconds_since_sunrise / ghati_sec\<close>,
  \<^verbatim>\<open>muhurta = ghati / 2.0\<close>, \<^verbatim>\<open>yama = ghati / 7.5\<close>.
\<close>

definition ghati_sec :: real where
  "ghati_sec = 24 * 60"

definition ghati :: "real \<Rightarrow> real" where
  "ghati seconds_since_sunrise = seconds_since_sunrise / ghati_sec"

definition muhurta :: "real \<Rightarrow> real" where
  "muhurta seconds_since_sunrise = ghati seconds_since_sunrise / 2"

definition yama :: "real \<Rightarrow> real" where
  "yama seconds_since_sunrise = ghati seconds_since_sunrise / (75 / 10)"

section \<open>The alt/az inversion solver's error (helpers.py, error_at_jd)\<close>




section \<open>The alt/az inversion solver (helpers.py, solve_time_from_altaz)\<close>




section \<open>Locations and instants (helpers.py)\<close>

text \<open>
  \<^verbatim>\<open>to_earthlocation\<close> hands its three arguments to the library's constructor and
  returns what the constructor returns; \<^verbatim>\<open>time_from_local_localdt\<close> subtracts the
  offset.  Neither tests its arguments.
\<close>

definition to_earthlocation ::
  "(real \<Rightarrow> real \<Rightarrow> real \<Rightarrow> error + 'loc) \<Rightarrow> real \<Rightarrow> real \<Rightarrow> real \<Rightarrow> error + 'loc" where
  "to_earthlocation EarthLocation lat_deg lon_deg height_m = EarthLocation lat_deg lon_deg height_m"

text \<open>
  The constructor of the library, as the library documents it, for running
  \<^verbatim>\<open>to_earthlocation\<close> on values: a latitude outside \<open>[-90, 90]\<close> raises
  \<^verbatim>\<open>ValueError\<close>, a longitude is wrapped into \<open>[-180, 180)\<close> and any height is
  taken.  It is not code of the program.
\<close>

record EarthLocation =
  loc_lat :: real
  loc_lon :: real
  loc_height :: real

definition from_geodetic :: "real \<Rightarrow> real \<Rightarrow> real \<Rightarrow> error + EarthLocation" where
  "from_geodetic lat_deg lon_deg height_m =
     (if lat_deg < - 90 \<or> 90 < lat_deg then Inl ValueError
      else Inr \<lparr>loc_lat = lat_deg, loc_lon = py_mod (lon_deg + 180) 360 - 180,
               loc_height = height_m\<rparr>)"

definition time_from_local_localdt :: "real \<Rightarrow> real \<Rightarrow> real" where
  "time_from_local_localdt local_dt tz_offset_hours = local_dt - tz_offset_hours / 24"

definition local_sidereal_time_hours :: "(real \<Rightarrow> real \<Rightarrow> real) \<Rightarrow> real \<Rightarrow> real \<Rightarrow> real" where
  \<comment> \<open>\<open>sidereal_time t lon\<close> is the library's apparent sidereal time in hours.\<close>
  "local_sidereal_time_hours sidereal_time astropy_time lon_deg = sidereal_time astropy_time lon_deg"

section \<open>The sunrise solver (helpers.py, approximate\_sunrise\_utc\_for\_local\_date)\<close>

definition target :: real where
  "target = - (833 / 1000)"

text \<open>
  \<^verbatim>\<open>n_steps = minutes_in_day // step_minutes + 1\<close> and the list
  \<^verbatim>\<open>[start_utc_dt + timedelta(minutes=step_minutes * i) for i in range(int(n_steps))]\<close>;
  \<open>div\<close> on \<open>int\<close> is Python's floor division and \<open>nat\<close> makes the range of a
  negative count empty.  A step of 0 raises \<^verbatim>\<open>ZeroDivisionError\<close>.  With a negative
  step the list is empty and the program hands it to the library; what the library does
  with it is not modelled, and the properties below are about positive steps.
\<close>

definition n_steps :: "int \<Rightarrow> int" where
  "n_steps step_minutes = (24 * 60) div step_minutes + 1"

definition times_list :: "real \<Rightarrow> int \<Rightarrow> real list" where
  "times_list start_utc_dt step_minutes =
     map (\<lambda>i. start_utc_dt + of_int (step_minutes * int i) / 1440) [0..<nat (n_steps step_minutes)]"

text \<open>The test of the scan at index \<open>i\<close>, and the first index of \<^verbatim>\<open>range(len(alt_vals) - 1)\<close> that passes it.\<close>

definition crossing :: "real list \<Rightarrow> nat \<Rightarrow> bool" where
  "crossing alt_vals i \<longleftrightarrow> alt_vals ! i < target \<and> alt_vals ! (i + 1) \<ge> target"

definition first_crossing :: "real list \<Rightarrow> nat option" where
  "first_crossing alt_vals = find (crossing alt_vals) [0..<length alt_vals - 1]"

definition frac :: "real \<Rightarrow> real \<Rightarrow> real" where
  "frac a0 a1 = (if a1 \<noteq> a0 then (target - a0) / (a1 - a0) else 0)"

definition interpolate :: "real list \<Rightarrow> real list \<Rightarrow> nat \<Rightarrow> real" where
  "interpolate time_vals alt_vals i =
     (let a0 = alt_vals ! i;
          a1 = alt_vals ! (i + 1)
      in time_vals ! i + frac a0 a1 * (time_vals ! (i + 1) - time_vals ! i))"

definition alt_vals :: "('loc \<Rightarrow> real \<Rightarrow> real) \<Rightarrow> 'loc \<Rightarrow> real \<Rightarrow> int \<Rightarrow> real list" where
  \<comment> \<open>\<open>sun_alt location t\<close> is the library's altitude of the Sun in degrees.\<close>
  "alt_vals sun_alt location start_utc_dt step_minutes =
     map (sun_alt location) (times_list start_utc_dt step_minutes)"

definition approximate_sunrise_utc_for_local_date ::
  "('loc \<Rightarrow> real \<Rightarrow> real) \<Rightarrow> real \<Rightarrow> 'loc \<Rightarrow> real \<Rightarrow> int \<Rightarrow> error + real" where
  \<comment> \<open>\<open>local_midnight\<close> is \<^verbatim>\<open>datetime.combine(local_date, dtime(0, 0, 0))\<close>.\<close>
  "approximate_sunrise_utc_for_local_date sun_alt local_midnight location tz_offset_hours step_minutes =
     (if step_minutes = 0 then Inl ZeroDivisionError
      else
        let start_utc_dt = local_midnight - tz_offset_hours / 24;
            time_vals = times_list start_utc_dt step_minutes;
            alts = alt_vals sun_alt location start_utc_dt step_minutes
        in case first_crossing alts of
             Some i \<Rightarrow> Inr (interpolate time_vals alts i)
           | None \<Rightarrow> Inr start_utc_dt)"

section \<open>The sidereal-match solver (helpers.py, find\_time\_for\_lst)\<close>

text \<open>The residual \<^verbatim>\<open>f\<close>: \<^verbatim>\<open>(lst_val - target_lst_hours + 12) % 24 - 12\<close>.\<close>

definition residual :: "(real \<Rightarrow> real \<Rightarrow> real) \<Rightarrow> real \<Rightarrow> real \<Rightarrow> real \<Rightarrow> real" where
  "residual sidereal_time lon_deg target_lst_hours t =
     py_mod (sidereal_time t lon_deg - target_lst_hours + 12) 24 - 12"

text \<open>
  The same line with each of its four operations in binary64.  The loops below are read
  with the exact residual.
\<close>

definition residual_binary64 :: "(real \<Rightarrow> real \<Rightarrow> real) \<Rightarrow> real \<Rightarrow> real \<Rightarrow> real \<Rightarrow> real" where
  "residual_binary64 sidereal_time lon_deg target_lst_hours t =
     fsub (float_mod (fadd (fsub (sidereal_time t lon_deg) target_lst_hours) 12) 24) 12"

text \<open>
  The state of both loops is \<open>(left, right, fl, fr)\<close>.  \<open>widen n\<close> is the loop
  \<^verbatim>\<open>for _ in range(8)\<close> with \<open>n\<close> passes left, its \<^verbatim>\<open>break\<close> the first branch.
\<close>

type_synonym bracket = "real \<times> real \<times> real \<times> real"

fun widen :: "nat \<Rightarrow> (real \<Rightarrow> real) \<Rightarrow> bracket \<Rightarrow> bracket" where
  "widen 0 f (left, right, fl, fr) = (left, right, fl, fr)"
| "widen (Suc n) f (left, right, fl, fr) =
     (if fl * fr \<le> 0 then (left, right, fl, fr)
      else
        let left' = left - 6 / 24;
            right' = right + 6 / 24
        in widen n f (left', right', f left', f right'))"

text \<open>\<open>bisect n\<close> is the loop \<^verbatim>\<open>for _ in range(60)\<close> with \<open>n\<close> passes left, and the last line.\<close>

fun bisect :: "nat \<Rightarrow> (real \<Rightarrow> real) \<Rightarrow> bracket \<Rightarrow> real" where
  "bisect 0 f (left, right, fl, fr) = (left + right) / 2"
| "bisect (Suc n) f (left, right, fl, fr) =
     (let mid = (left + right) / 2;
          fm = f mid
      in if \<bar>fm\<bar> < 1 / 10 ^ 7 then mid
         else if fl * fm \<le> 0 then bisect n f (left, mid, fl, fm)
         else bisect n f (mid, right, fm, fr))"

definition initial_bracket :: "(real \<Rightarrow> real) \<Rightarrow> real \<Rightarrow> bracket" where
  "initial_bracket f approx_time_utc =
     (let left = approx_time_utc - 12 / 24;
          right = approx_time_utc + 12 / 24
      in (left, right, f left, f right))"

definition find_time_for_lst :: "(real \<Rightarrow> real \<Rightarrow> real) \<Rightarrow> real \<Rightarrow> real \<Rightarrow> real \<Rightarrow> real" where
  "find_time_for_lst sidereal_time target_lst_hours approx_time_utc lon_deg =
     (let f = residual sidereal_time lon_deg target_lst_hours;
          (left, right, fl, fr) = widen 8 f (initial_bracket f approx_time_utc)
      in if fl * fr > 0 then approx_time_utc
         else bisect 60 f (left, right, fl, fr))"

text \<open>
  A sidereal time for running the solver on values: the mean sidereal time at Greenwich,
  linear in the Julian date (18.697374558 hours at 2451545.0, 24.06570982441908 hours a
  day), moved by the longitude and wrapped into \<open>[0, 24)\<close>.  The library's apparent
  sidereal time differs from it by the equation of the equinoxes, about one second.  It is
  not code of the program.
\<close>

definition mean_sidereal_time :: "real \<Rightarrow> real \<Rightarrow> real" where
  "mean_sidereal_time t lon_deg =
     py_mod (18.697374558 + 24.06570982441908 * (t - 2451545) + lon_deg / 15) 24"

section \<open>Star positions (helpers.py, compute\_stars\_positions\_for\_time)\<close>

record star =
  name :: string
  ra_h :: real
  dec_deg :: real
  mag :: real

record position = star +
  alt_deg :: real
  az_deg :: real
  visible :: bool

text \<open>\<^verbatim>\<open>Series.clip(lower, upper)\<close>.\<close>

definition clip :: "real \<Rightarrow> real \<Rightarrow> real \<Rightarrow> real" where
  "clip x lower upper = min (max x lower) upper"

definition star_row ::
  "(real \<Rightarrow> 'loc \<Rightarrow> real \<Rightarrow> real \<Rightarrow> real \<times> real) \<Rightarrow> real \<Rightarrow> 'loc \<Rightarrow> star \<Rightarrow> position" where
  "star_row transform_to astropy_time location r =
     (let altaz = transform_to astropy_time location (ra_h r) (dec_deg r)
      in \<lparr>name = name r, ra_h = ra_h r, dec_deg = dec_deg r, mag = mag r,
          alt_deg = fst altaz, az_deg = snd altaz, visible = (fst altaz > 0)\<rparr>)"

text \<open>
  A frame built from no rows has no columns, so \<^verbatim>\<open>df["az_deg"]\<close> raises
  \<^verbatim>\<open>KeyError\<close> for an empty catalogue.
\<close>

definition compute_stars_positions_for_time ::
  "(real \<Rightarrow> 'loc \<Rightarrow> real \<Rightarrow> real \<Rightarrow> real \<times> real) \<Rightarrow> real \<Rightarrow> 'loc \<Rightarrow> star list
     \<Rightarrow> error + position list" where
  "compute_stars_positions_for_time transform_to astropy_time location base_stars_df =
     (let rows = map (star_row transform_to astropy_time location) base_stars_df
      in if rows = [] then Inl KeyError
         else
           let df1 = map (\<lambda>d. d\<lparr>az_deg := py_mod (az_deg d) 360\<rparr>) rows;
               df2 = map (\<lambda>d. d\<lparr>alt_deg := clip (alt_deg d) (- 90) 90\<rparr>) df1
           in Inr df2)"

section \<open>Properties\<close>

subsection \<open>Units of the day and wraps\<close>

lemma py_mod_range:
  assumes "0 < m"
  shows "0 \<le> py_mod x m" and "py_mod x m < m"
proof -
  have le: "of_int \<lfloor>x / m\<rfloor> \<le> x / m" by (rule of_int_floor_le)
  have lt: "x / m < of_int \<lfloor>x / m\<rfloor> + 1" by linarith
  have "of_int \<lfloor>x / m\<rfloor> * m \<le> x / m * m"
    using le assms by (intro mult_right_mono) simp_all
  then have "of_int \<lfloor>x / m\<rfloor> * m \<le> x"
    using assms by simp
  then show "0 \<le> py_mod x m"
    by (simp add: py_mod_def mult.commute)
  have "x / m * m < (of_int \<lfloor>x / m\<rfloor> + 1) * m"
    using lt assms by (intro mult_strict_right_mono) simp_all
  then have "x < (of_int \<lfloor>x / m\<rfloor> + 1) * m"
    using assms by simp
  then show "py_mod x m < m"
    by (simp add: py_mod_def algebra_simps)
qed

text \<open>
  Claim C7.  For every number \<open>s\<close> of seconds since sunrise the three units are pure
  arithmetic: ghati is \<open>s / 1440\<close>, muhurta is half the ghati and yama is the ghati
  divided by 7.5; 1440 seconds give 1, 1/2 and 2/15 (0.1333...), and 0 seconds give
  0 three times.
\<close>

theorem ancient_units_arithmetic:
  "ghati s = s / 1440 \<and> muhurta s = ghati s / 2 \<and> yama s = ghati s / 7.5
   \<and> ghati 1440 = 1 \<and> muhurta 1440 = 0.5 \<and> yama 1440 = 2 / 15
   \<and> ghati 0 = 0 \<and> muhurta 0 = 0 \<and> yama 0 = 0"
  by (simp add: ghati_def muhurta_def yama_def ghati_sec_def)

subsection \<open>Binary64 rounding\<close>

lemma rne_of_int: "rne (of_int n) = n"
  by (simp add: rne_def)

lemma rne_le: "x \<le> of_int N \<Longrightarrow> rne x \<le> N"
proof -
  assume a: "x \<le> of_int N"
  then have f: "\<lfloor>x\<rfloor> \<le> N" by (simp add: floor_le_iff) 
  show ?thesis
  proof (cases "\<lfloor>x\<rfloor> = N")
    case True
    then have "of_int N \<le> x" by (metis of_int_floor_le)
    with a have "x = of_int N" by simp
    then show ?thesis by (simp add: rne_of_int)
  next
    case False
    with f have "\<lfloor>x\<rfloor> + 1 \<le> N" by simp
    then show ?thesis by (simp add: rne_def Let_def)
  qed
qed

lemma rne_ge: "of_int N \<le> x \<Longrightarrow> N \<le> rne x"
proof -
  assume "of_int N \<le> x"
  then have "N \<le> \<lfloor>x\<rfloor>" by (simp add: le_floor_iff)
  then show ?thesis by (simp add: rne_def Let_def)
qed

lemma expo_from_range: "e - int n \<le> expo_from n e x \<and> expo_from n e x \<le> e"
proof (induction n arbitrary: e)
  case 0
  show ?case by simp
next
  case (Suc n)
  show ?case
  proof (cases "2 powi e \<le> x")
    case True
    then show ?thesis by simp
  next
    case False
    with Suc [of "e - 1"] show ?thesis by simp
  qed
qed

lemma expo_from_lower: "e - int n < expo_from n e x \<Longrightarrow> 2 powi (expo_from n e x) \<le> x"
proof (induction n arbitrary: e)
  case 0
  then show ?case by simp
next
  case (Suc n)
  show ?case
  proof (cases "2 powi e \<le> x")
    case True
    then show ?thesis by simp
  next
    case False
    then have eq: "expo_from (Suc n) e x = expo_from n (e - 1) x" by simp
    have "e - 1 - int n < expo_from n (e - 1) x" using Suc.prems eq by simp
    then show ?thesis unfolding eq by (rule Suc.IH)
  qed
qed

lemma expo_from_upper: "expo_from n e x < e \<Longrightarrow> x < 2 powi (expo_from n e x + 1)"
proof (induction n arbitrary: e)
  case 0
  then show ?case by simp
next
  case (Suc n)
  show ?case
  proof (cases "2 powi e \<le> x")
    case True
    then show ?thesis using Suc.prems by simp
  next
    case False
    then have eq: "expo_from (Suc n) e x = expo_from n (e - 1) x" by simp
    show ?thesis
    proof (cases "expo_from n (e - 1) x < e - 1")
      case True
      then show ?thesis unfolding eq by (rule Suc.IH)
    next
      case f: False
      have "expo_from n (e - 1) x \<le> e - 1" using expo_from_range [of "e - 1" n x] by simp
      with f have "expo_from n (e - 1) x = e - 1" by simp
      then show ?thesis unfolding eq using False by simp
    qed
  qed
qed

lemma expo_range: "- 1022 \<le> expo x" "expo x \<le> 1023"
  using expo_from_range [of 1023 2045 "\<bar>x\<bar>"] by (simp_all add: expo_def)

lemma expo_lower: "- 1022 < expo x \<Longrightarrow> 2 powi (expo x) \<le> \<bar>x\<bar>"
  using expo_from_lower [of 1023 2045 "\<bar>x\<bar>"] by (simp add: expo_def)

lemma expo_upper: "expo x < 1023 \<Longrightarrow> \<bar>x\<bar> < 2 powi (expo x + 1)"
  using expo_from_upper [of 2045 1023 "\<bar>x\<bar>"] by (simp add: expo_def)

lemma two_powi_mono: "i \<le> j \<Longrightarrow> (2::real) powi i \<le> 2 powi j"
  by (rule power_int_increasing) simp_all

lemma expo_le:
  assumes "\<bar>x\<bar> < 2 powi (k + 1)" "- 1022 \<le> k"
  shows "expo x \<le> k"
proof (rule ccontr)
  assume "\<not> expo x \<le> k"
  then have g: "k + 1 \<le> expo x" by simp
  then have "2 powi (expo x) \<le> \<bar>x\<bar>" using assms(2) by (intro expo_lower) simp
  moreover have "(2::real) powi (k + 1) \<le> 2 powi (expo x)" using g by (rule two_powi_mono)
  ultimately show False using assms(1) by simp
qed

lemma expo_ge:
  assumes "2 powi k \<le> \<bar>x\<bar>" "k \<le> 1023"
  shows "k \<le> expo x"
proof (rule ccontr)
  assume "\<not> k \<le> expo x"
  then have g: "expo x + 1 \<le> k" by simp
  then have "\<bar>x\<bar> < 2 powi (expo x + 1)" using assms(2) by (intro expo_upper) simp
  moreover have "(2::real) powi (expo x + 1) \<le> 2 powi k" using g by (rule two_powi_mono)
  ultimately show False using assms(1) by simp
qed

lemma expo_eq:
  assumes "2 powi k \<le> \<bar>x\<bar>" "\<bar>x\<bar> < 2 powi (k + 1)" "- 1022 \<le> k" "k \<le> 1023"
  shows "expo x = k"
  using expo_le [OF assms(2,3)] expo_ge [OF assms(1,4)] by simp

lemma fl64_binade:
  assumes "2 powi k \<le> \<bar>x\<bar>" "\<bar>x\<bar> < 2 powi (k + 1)" "- 1022 \<le> k" "k \<le> 1023"
  shows "fl64 x = of_int (rne (x / 2 powi (k - 52))) * 2 powi (k - 52)"
  by (simp add: fl64_def expo_eq [OF assms])


lemma fl64_le_int:
  assumes "x \<le> of_int N" "\<bar>x\<bar> < 2 ^ 53"
  shows "fl64 x \<le> of_int N"
proof -
  have e: "expo x \<le> 52" using assms(2) by (intro expo_le) simp_all
  define j where "j = nat (52 - expo x)"
  have q: "(2::real) powi (expo x - 52) = 1 / 2 ^ j"
  proof -
    have "expo x - 52 = - int j" using e by (simp add: j_def)
    then show ?thesis by (simp add: power_int_minus divide_simps)
  qed
  have "x / (1 / 2 ^ j) \<le> of_int N / (1 / 2 ^ j)" using assms(1) by (simp add: field_simps)
  also have "real_of_int N / (1 / 2 ^ j) = real_of_int (N * 2 ^ j)" by simp
  finally have "rne (x / (1 / 2 ^ j)) \<le> N * 2 ^ j" by (rule rne_le)
  then have "real_of_int (rne (x / (1 / 2 ^ j))) \<le> real_of_int (N * 2 ^ j)" by (simp only: of_int_le_iff)
  then have "real_of_int (rne (x / (1 / 2 ^ j))) * (1 / 2 ^ j) \<le> real_of_int N"
    by (simp add: field_simps)
  then show ?thesis by (simp add: fl64_def q)
qed

lemma fl64_ge_int:
  assumes "of_int N \<le> x" "\<bar>x\<bar> < 2 ^ 53"
  shows "of_int N \<le> fl64 x"
proof -
  have e: "expo x \<le> 52" using assms(2) by (intro expo_le) simp_all
  define j where "j = nat (52 - expo x)"
  have q: "(2::real) powi (expo x - 52) = 1 / 2 ^ j"
  proof -
    have "expo x - 52 = - int j" using e by (simp add: j_def)
    then show ?thesis by (simp add: power_int_minus divide_simps)
  qed
  have "of_int N / (1 / 2 ^ j) \<le> x / (1 / 2 ^ j)" using assms(1) by (simp add: field_simps)
  moreover have "real_of_int N / (1 / 2 ^ j) = real_of_int (N * 2 ^ j)" by simp
  ultimately have "of_int (N * 2 ^ j) \<le> x / (1 / 2 ^ j)" by simp
  then have "N * 2 ^ j \<le> rne (x / (1 / 2 ^ j))" by (rule rne_ge)
  then have "real_of_int (N * 2 ^ j) \<le> real_of_int (rne (x / (1 / 2 ^ j)))" by (simp only: of_int_le_iff)
  then have "real_of_int N \<le> real_of_int (rne (x / (1 / 2 ^ j))) * (1 / 2 ^ j)"
    by (simp add: field_simps)
  then show ?thesis by (simp add: fl64_def q)
qed

lemma fmod_range:
  assumes "0 < m"
  shows "- m < fmod x m" and "fmod x m < m"
    and "0 \<le> x \<Longrightarrow> 0 \<le> fmod x m" and "x \<le> 0 \<Longrightarrow> fmod x m \<le> 0"
proof -
  have fl: "of_int \<lfloor>x / m\<rfloor> * m \<le> x" "x < (of_int \<lfloor>x / m\<rfloor> + 1) * m"
  proof -
    have "of_int \<lfloor>x / m\<rfloor> \<le> x / m" by (rule of_int_floor_le)
    then have "of_int \<lfloor>x / m\<rfloor> * m \<le> x / m * m"
      using assms by (intro mult_right_mono) simp_all
    then show "of_int \<lfloor>x / m\<rfloor> * m \<le> x" using assms by simp
    have "x / m < of_int \<lfloor>x / m\<rfloor> + 1" by linarith
    then have "x / m * m < (of_int \<lfloor>x / m\<rfloor> + 1) * m"
      using assms by (intro mult_strict_right_mono) simp_all
    then show "x < (of_int \<lfloor>x / m\<rfloor> + 1) * m" using assms by simp
  qed
  have ce: "x \<le> of_int \<lceil>x / m\<rceil> * m" "(of_int \<lceil>x / m\<rceil> - 1) * m < x"
  proof -
    have "x / m \<le> of_int \<lceil>x / m\<rceil>" by (rule le_of_int_ceiling)
    then have "x / m * m \<le> of_int \<lceil>x / m\<rceil> * m"
      using assms by (intro mult_right_mono) simp_all
    then show "x \<le> of_int \<lceil>x / m\<rceil> * m" using assms by simp
    have "of_int \<lceil>x / m\<rceil> - 1 < x / m" by linarith
    then have "(of_int \<lceil>x / m\<rceil> - 1) * m < x / m * m"
      using assms by (intro mult_strict_right_mono) simp_all
    then show "(of_int \<lceil>x / m\<rceil> - 1) * m < x" using assms by simp
  qed
  have s: "0 \<le> x / m \<longleftrightarrow> 0 \<le> x" using assms by (simp add: zero_le_divide_iff)
  show "- m < fmod x m" using fl ce assms unfolding fmod_def s by (auto simp: algebra_simps)
  show "fmod x m < m" using fl ce assms unfolding fmod_def s by (auto simp: algebra_simps)
  show "0 \<le> x \<Longrightarrow> 0 \<le> fmod x m" using fl unfolding fmod_def s by (simp add: algebra_simps)
  show "x \<le> 0 \<Longrightarrow> fmod x m \<le> 0" using fl ce unfolding fmod_def s
    by (cases "x = 0") (auto simp: algebra_simps)
qed

lemma float_mod_range:
  assumes "0 < M" "M < 2 ^ 53"
  shows "0 \<le> float_mod x (of_int M)" and "float_mod x (of_int M) \<le> of_int M"
proof -
  let ?m = "real_of_int M"
  let ?r = "fmod x ?m"
  have m: "0 < ?m" using assms(1) by simp
  have mb: "?m < 2 ^ 53"
  proof -
    have "?m < real_of_int (2 ^ 53)" using assms(2) by (simp only: of_int_less_iff)
    then show ?thesis by simp
  qed
  note r = fmod_range [OF m, of x]
  have both: "0 \<le> float_mod x ?m \<and> float_mod x ?m \<le> ?m"
  proof (cases "?r < 0")
    case True
    then have v: "float_mod x ?m = fl64 (?r + ?m)" using m by (simp add: float_mod_def Let_def)
    have p: "of_int 0 \<le> ?r + ?m" "?r + ?m \<le> of_int M" using r(1) True by simp_all
    have a: "\<bar>?r + ?m\<bar> < 2 ^ 53" using p mb by simp
    show ?thesis unfolding v using fl64_ge_int [OF p(1) a] fl64_le_int [OF p(2) a] by simp
  next
    case False
    then have v: "float_mod x ?m = ?r" using m by (simp add: float_mod_def Let_def)
    show ?thesis unfolding v using False r(2) by simp
  qed
  then show "0 \<le> float_mod x (of_int M)" and "float_mod x (of_int M) \<le> of_int M" by simp_all
qed

lemma fl64_binade_neg:
  assumes "1 / 2 ^ j \<le> \<bar>x\<bar>" "\<bar>x\<bar> < 2 / 2 ^ j" "j \<le> 1022"
  shows "fl64 x = of_int (rne (x * 2 ^ (j + 52))) / 2 ^ (j + 52)"
proof -
  have a: "(2::real) powi (- int j) = 1 / 2 ^ j" by (simp add: power_int_minus divide_simps)
  have "(2::real) powi (- int j + 1) = 2 powi (- int j) * 2 powi 1"
    by (rule power_int_add) simp
  then have b: "(2::real) powi (1 - int j) = 2 / 2 ^ j" by (simp add: a)
  have c: "(2::real) powi (- int j - 52) = 1 / 2 ^ (j + 52)"
  proof -
    have "- int j - 52 = - int (j + 52)" by simp
    then show ?thesis by (simp only: power_int_minus power_int_of_nat) (simp add: divide_simps)
  qed
  have "fl64 x = of_int (rne (x / 2 powi (- int j - 52))) * 2 powi (- int j - 52)"
    using assms by (intro fl64_binade) (simp_all add: a b)
  then show ?thesis by (simp add: c)
qed

lemma fl64_binade_pos:
  assumes "2 ^ k \<le> \<bar>x\<bar>" "\<bar>x\<bar> < 2 * 2 ^ k" "k \<le> 52"
  shows "fl64 x = of_int (rne (x * 2 ^ (52 - k))) / 2 ^ (52 - k)"
proof -
  have c: "(2::real) powi (int k - 52) = 1 / 2 ^ (52 - k)"
  proof -
    have "int k - 52 = - int (52 - k)" using assms(3) by simp
    then show ?thesis by (simp only: power_int_minus power_int_of_nat) (simp add: divide_simps)
  qed
  have "fl64 x = of_int (rne (x / 2 powi (int k - 52))) * 2 powi (int k - 52)"
    using assms by (intro fl64_binade) (simp_all add: power_int_add)
  then show ?thesis by (simp add: c)
qed

lemma fl64_exact_pos:
  assumes "x = of_int n / 2 ^ (52 - k)" "2 ^ k \<le> \<bar>x\<bar>" "\<bar>x\<bar> < 2 * 2 ^ k" "k \<le> 52"
  shows "fl64 x = x"
proof -
  have "x * 2 ^ (52 - k) = of_int n" using assms(1) by simp
  then have "rne (x * 2 ^ (52 - k)) = n" by (simp only: rne_of_int)
  then show ?thesis using fl64_binade_pos [OF assms(2-4)] assms(1) by simp
qed

lemma fl64_exact_neg:
  assumes "x = of_int n / 2 ^ (j + 52)" "1 / 2 ^ j \<le> \<bar>x\<bar>" "\<bar>x\<bar> < 2 / 2 ^ j" "j \<le> 1022"
  shows "fl64 x = x"
proof -
  have "x * 2 ^ (j + 52) = of_int n" using assms(1) by simp
  then have "rne (x * 2 ^ (j + 52)) = n" by (simp only: rne_of_int)
  then show ?thesis using fl64_binade_neg [OF assms(2-4)] assms(1) by simp
qed

lemma fmod_small:
  assumes "0 < m" "\<bar>x\<bar> < m"
  shows "fmod x m = x"
proof -
  have a: "- 1 < x / m" "x / m < 1" using assms by (simp_all add: field_simps abs_less_iff)
  have "(if 0 \<le> x / m then \<lfloor>x / m\<rfloor> else \<lceil>x / m\<rceil>) = 0"
  proof (cases "0 \<le> x / m")
    case True
    then have "\<lfloor>x / m\<rfloor> = 0" using a(2) by linarith
    with True show ?thesis by simp
  next
    case False
    then have "\<lceil>x / m\<rceil> = 0" using a(1) by linarith
    with False show ?thesis by simp
  qed
  then show ?thesis unfolding fmod_def by simp
qed



lemma fl64_wrap_tie_24: "fl64 (24 - 1 / 2 ^ 49) = 24"
proof -
  have "fl64 (24 - 1 / 2 ^ 49) = of_int (rne ((24 - 1 / 2 ^ 49) * 2 ^ (52 - 4))) / 2 ^ (52 - 4)"
    by (rule fl64_binade_pos) simp_all
  moreover have "rne ((24 - 1 / 2 ^ 49) * 2 ^ (52 - 4)) = 24 * 2 ^ 48"
    by (simp add: rne_def Let_def)
  ultimately show ?thesis by simp
qed

subsection \<open>The wrap of the azimuth difference\<close>





subsection \<open>The sunrise solver\<close>

lemma length_times_list: "length (times_list s step) = nat (n_steps step)"
  by (simp add: times_list_def)

lemma nth_times_list:
  "i < nat (n_steps step) \<Longrightarrow> times_list s step ! i = s + of_int (step * int i) / 1440"
  by (simp add: times_list_def)

lemma n_steps_pos: "0 < step \<Longrightarrow> 1 \<le> n_steps step"
  by (simp add: n_steps_def pos_imp_zdiv_nonneg_iff)

lemma length_alt_vals: "length (alt_vals sun_alt loc s step) = nat (n_steps step)"
  by (simp add: alt_vals_def length_times_list)

lemma first_crossing_Some_iff:
  "first_crossing alts = Some i \<longleftrightarrow>
     i + 1 < length alts \<and> crossing alts i \<and> (\<forall>j<i. \<not> crossing alts j)"
  unfolding first_crossing_def find_Some_iff
  by (auto simp: less_diff_conv)

lemma first_crossing_None_iff:
  "first_crossing alts = None \<longleftrightarrow> (\<forall>i. i + 1 < length alts \<longrightarrow> \<not> crossing alts i)"
  unfolding first_crossing_def find_None_iff
  by (auto simp: less_diff_conv)

lemma frac_crossing:
  assumes "a0 < target" "target \<le> a1"
  shows "0 < a1 - a0" and "frac a0 a1 = (target - a0) / (a1 - a0)"
    and "0 < frac a0 a1" and "frac a0 a1 \<le> 1"
proof -
  show d: "0 < a1 - a0" using assms by simp
  then show e: "frac a0 a1 = (target - a0) / (a1 - a0)" by (simp add: frac_def)
  show "0 < frac a0 a1" unfolding e using assms d by simp
  show "frac a0 a1 \<le> 1" unfolding e using assms d by simp
qed

lemma times_list_step:
  assumes "0 < step" "i + 1 < nat (n_steps step)"
  shows "times_list s step ! (i + 1) - times_list s step ! i = of_int step / 1440"
  using assms by (simp add: nth_times_list algebra_simps add_divide_distrib)

lemma times_list_ge_start:
  assumes "0 < step" "i < nat (n_steps step)"
  shows "s \<le> times_list s step ! i"
  using assms by (simp add: nth_times_list)

lemma last_times_list:
  assumes "0 < step"
  shows "last (times_list s step) = s + of_int (step * (1440 div step)) / 1440"
proof -
  have n: "nat (n_steps step) = Suc (nat (1440 div step))"
    using assms by (simp add: n_steps_def pos_imp_zdiv_nonneg_iff nat_add_distrib)
  have "times_list s step \<noteq> []" using n by (simp add: times_list_def)
  then have "last (times_list s step) = times_list s step ! (nat (n_steps step) - 1)"
    by (simp add: last_conv_nth length_times_list)
  also have "\<dots> = s + of_int (step * int (nat (1440 div step))) / 1440"
    using n by (simp add: nth_times_list)
  finally show ?thesis using assms by (simp add: pos_imp_zdiv_nonneg_iff)
qed

lemma sunrise_unfold:
  assumes "0 < step"
  shows "approximate_sunrise_utc_for_local_date sun_alt midnight loc tz step =
     (case first_crossing (alt_vals sun_alt loc (midnight - tz / 24) step) of
        Some i \<Rightarrow> Inr (interpolate (times_list (midnight - tz / 24) step)
                          (alt_vals sun_alt loc (midnight - tz / 24) step) i)
      | None \<Rightarrow> Inr (midnight - tz / 24))"
  using assms by (simp add: approximate_sunrise_utc_for_local_date_def Let_def)

lemma interpolate_bounds:
  assumes step: "0 < step"
    and i: "i + 1 < nat (n_steps step)"
    and len: "length alts = nat (n_steps step)"
    and c: "alts ! i < target" "target \<le> alts ! (i + 1)"
  shows "times_list s step ! i < interpolate (times_list s step) alts i"
    and "interpolate (times_list s step) alts i \<le> times_list s step ! (i + 1)"
proof -
  let ?ts = "times_list s step"
  let ?f = "frac (alts ! i) (alts ! (i + 1))"
  have d: "?ts ! (i + 1) - ?ts ! i = of_int step / 1440"
    using step i by (rule times_list_step)
  have dpos: "0 < ?ts ! (i + 1) - ?ts ! i" using d step by simp
  have f0: "0 < ?f" and f1: "?f \<le> 1" using c by (rule frac_crossing)+
  have eq: "interpolate ?ts alts i = ?ts ! i + ?f * (?ts ! (i + 1) - ?ts ! i)"
    by (simp add: interpolate_def Let_def)
  have "0 < ?f * (?ts ! (i + 1) - ?ts ! i)" using f0 dpos by (rule mult_pos_pos)
  then show "?ts ! i < interpolate ?ts alts i" unfolding eq by simp
  have "?f * (?ts ! (i + 1) - ?ts ! i) \<le> 1 * (?ts ! (i + 1) - ?ts ! i)"
    using f1 dpos by (intro mult_right_mono) simp_all
  then show "interpolate ?ts alts i \<le> ?ts ! (i + 1)" unfolding eq by simp
qed

text \<open>
  Claim C10.  With a positive step, at an index \<open>i\<close> of the scan where the altitude is
  below \<open>-0.833\<close> and the next one is at or above it, the denominator \<open>a1 - a0\<close> is
  positive, so the branch \<open>frac = 0.0\<close> is not taken; the fraction is above 0 and at
  most 1, and the interpolated instant, which is the one returned when \<open>i\<close> is the first
  such index, is after sample time \<open>i\<close> and not after sample time \<open>i + 1\<close>.
\<close>

theorem sunrise_interpolation_bounds:
  assumes "0 < step"
    and "i + 1 < length (alt_vals sun_alt loc (midnight - tz / 24) step)"
    and "alt_vals sun_alt loc (midnight - tz / 24) step ! i < target"
    and "target \<le> alt_vals sun_alt loc (midnight - tz / 24) step ! (i + 1)"
  shows "(let alts = alt_vals sun_alt loc (midnight - tz / 24) step;
              time_vals = times_list (midnight - tz / 24) step;
              a0 = alts ! i; a1 = alts ! (i + 1)
          in 0 < a1 - a0 \<and> a1 \<noteq> a0
           \<and> frac a0 a1 = (target - a0) / (a1 - a0)
           \<and> 0 < frac a0 a1 \<and> frac a0 a1 \<le> 1
           \<and> time_vals ! i < interpolate time_vals alts i
           \<and> interpolate time_vals alts i \<le> time_vals ! (i + 1)
           \<and> (first_crossing alts = Some i \<longrightarrow>
                approximate_sunrise_utc_for_local_date sun_alt midnight loc tz step
                  = Inr (interpolate time_vals alts i)))"
proof -
  let ?alts = "alt_vals sun_alt loc (midnight - tz / 24) step"
  let ?ts = "times_list (midnight - tz / 24) step"
  have i: "i + 1 < nat (n_steps step)" using assms(2) by (simp add: length_alt_vals)
  have len: "length ?alts = nat (n_steps step)" by (rule length_alt_vals)
  note fc = frac_crossing [OF assms(3) assms(4)]
  note ib = interpolate_bounds [OF assms(1) i len assms(3) assms(4), of "midnight - tz / 24"]
  have ne: "?alts ! (i + 1) \<noteq> ?alts ! i" using fc(1) by simp
  have r: "first_crossing ?alts = Some i \<longrightarrow>
        approximate_sunrise_utc_for_local_date sun_alt midnight loc tz step
          = Inr (interpolate ?ts ?alts i)"
    by (simp add: sunrise_unfold [OF assms(1)])
  show ?thesis
    unfolding Let_def using fc ib ne r by blast
qed

text \<open>
  Claim C4.  With a positive step, the sunrise solver returns local midnight in UTC
  (local 00:00 minus the offset) exactly when no index of the scan has an altitude
  below \<open>-0.833\<close> followed by one at or above it.
\<close>

theorem sunrise_fallback_iff:
  assumes "0 < step"
  shows "(approximate_sunrise_utc_for_local_date sun_alt midnight loc tz step
            = Inr (time_from_local_localdt midnight tz))
       = (\<forall>i. i + 1 < length (alt_vals sun_alt loc (midnight - tz / 24) step) \<longrightarrow>
            \<not> (alt_vals sun_alt loc (midnight - tz / 24) step ! i < target
               \<and> target \<le> alt_vals sun_alt loc (midnight - tz / 24) step ! (i + 1)))"
proof -
  let ?s = "midnight - tz / 24"
  let ?alts = "alt_vals sun_alt loc ?s step"
  let ?ts = "times_list ?s step"
  let ?r = "approximate_sunrise_utc_for_local_date sun_alt midnight loc tz step"
  have none: "first_crossing ?alts = None \<longleftrightarrow>
      (\<forall>i. i + 1 < length ?alts \<longrightarrow> \<not> (?alts ! i < target \<and> target \<le> ?alts ! (i + 1)))"
    by (simp add: first_crossing_None_iff crossing_def)
  show ?thesis
  proof (cases "first_crossing ?alts")
    case None
    then have "?r = Inr ?s" by (simp add: sunrise_unfold [OF assms])
    with None none show ?thesis by (simp add: time_from_local_localdt_def)
  next
    case (Some i)
    then have c: "i + 1 < length ?alts" "crossing ?alts i"
      by (simp_all add: first_crossing_Some_iff)
    have i: "i + 1 < nat (n_steps step)" using c(1) by (simp add: length_alt_vals)
    have len: "length ?alts = nat (n_steps step)" by (rule length_alt_vals)
    have "?ts ! i < interpolate ?ts ?alts i"
      using c(2) by (intro interpolate_bounds(1) [OF assms i len]) (simp_all add: crossing_def)
    moreover have "?s \<le> ?ts ! i" using assms i by (intro times_list_ge_start) simp_all
    ultimately have "interpolate ?ts ?alts i \<noteq> ?s" by simp
    moreover have "?r = Inr (interpolate ?ts ?alts i)"
      using Some by (simp add: sunrise_unfold [OF assms])
    ultimately have nr: "?r \<noteq> Inr (time_from_local_localdt midnight tz)"
      by (simp add: time_from_local_localdt_def)
    have "\<not> (\<forall>i. i + 1 < length ?alts \<longrightarrow> \<not> (?alts ! i < target \<and> target \<le> ?alts ! (i + 1)))"
      using none Some by simp
    with nr show ?thesis by simp
  qed
qed

lemma last_times_list_full_day:
  assumes "0 < step"
  shows "last (times_list s step) = s + 1 \<longleftrightarrow> step dvd 1440"
proof -
  have "step * (1440 div step) = 1440 \<longleftrightarrow> step dvd 1440"
    by (metis dvd_mult_div_cancel dvd_triv_left)
  moreover have "last (times_list s step) = s + 1 \<longleftrightarrow> step * (1440 div step) = 1440"
  proof -
    have "(real_of_int (step * (1440 div step)) / 1440 = 1) = (real_of_int (step * (1440 div step)) = real_of_int 1440)"
      by simp
    also have "\<dots> = (step * (1440 div step) = 1440)" by (simp only: of_int_eq_iff)
    finally show ?thesis by (simp add: last_times_list [OF assms])
  qed
  ultimately show ?thesis by simp
qed

lemma last_times_list_bounds:
  assumes "0 < step"
  shows "last (times_list s step) \<le> s + 1"
    and "s + 1 - of_int step / 1440 < last (times_list s step)"
proof -
  have a: "step * (1440 div step) \<le> 1440"
  proof -
    have "1440 = step * (1440 div step) + 1440 mod step" by simp
    moreover have "0 \<le> 1440 mod step" using assms by simp
    ultimately show ?thesis by linarith
  qed
  have b: "1440 - step < step * (1440 div step)"
  proof -
    have "1440 = step * (1440 div step) + 1440 mod step" by simp
    moreover have "1440 mod step < step" using assms by simp
    ultimately show ?thesis by linarith
  qed
  have "real_of_int (step * (1440 div step)) \<le> real_of_int 1440" using a by (simp only: of_int_le_iff)
  then show "last (times_list s step) \<le> s + 1" by (simp add: last_times_list [OF assms])
  have "real_of_int (1440 - step) < real_of_int (step * (1440 div step))" using b by (simp only: of_int_less_iff)
  then show "s + 1 - of_int step / 1440 < last (times_list s step)"
    by (simp add: last_times_list [OF assms] field_simps)
qed

text \<open>
  Claim C1, as the code has it.  With a positive step the samples are taken at
  \<open>start + i * step\<close> minutes for \<open>i = 0, ..., 1440 div step\<close>, where \<open>start\<close> is
  local 00:00 minus the offset.  The last sample is less than one step before
  24:00 local and is 24:00 local exactly when the step divides 1440.  The scan finds the
  first index whose altitude is below \<open>-0.833\<close> and whose successor is at or above it,
  and the solver returns the linear interpolation between the two sample times; with no
  such index it returns \<open>start\<close>.
\<close>

theorem sunrise_scan_interpolate:
  assumes "0 < step"
  shows "(let start = time_from_local_localdt midnight tz;
              time_vals = times_list start step;
              alts = alt_vals sun_alt loc start step
          in target = - 0.833
           \<and> time_vals = map (\<lambda>i. start + of_int (step * int i) / 1440) [0..<nat (1440 div step) + 1]
           \<and> alts = map (sun_alt loc) time_vals
           \<and> time_vals ! 0 = start
           \<and> last time_vals = start + of_int (step * (1440 div step)) / 1440
           \<and> start + 1 - of_int step / 1440 < last time_vals
           \<and> last time_vals \<le> start + 1
           \<and> (last time_vals = start + 1) = (step dvd 1440)
           \<and> (\<forall>i. (first_crossing alts = Some i)
                  = (i + 1 < length alts \<and> alts ! i < target \<and> target \<le> alts ! (i + 1)
                     \<and> (\<forall>j<i. \<not> (alts ! j < target \<and> target \<le> alts ! (j + 1)))))
           \<and> (\<forall>i. first_crossing alts = Some i \<longrightarrow>
                  approximate_sunrise_utc_for_local_date sun_alt midnight loc tz step
                    = Inr (time_vals ! i
                           + (target - alts ! i) / (alts ! (i + 1) - alts ! i)
                             * (time_vals ! (i + 1) - time_vals ! i)))
           \<and> (first_crossing alts = None \<longrightarrow>
                  approximate_sunrise_utc_for_local_date sun_alt midnight loc tz step = Inr start))"
proof -
  let ?s = "midnight - tz / 24"
  let ?ts = "times_list ?s step"
  let ?alts = "alt_vals sun_alt loc ?s step"
  let ?r = "approximate_sunrise_utc_for_local_date sun_alt midnight loc tz step"
  have n: "nat (n_steps step) = nat (1440 div step) + 1"
    using assms by (simp add: n_steps_def pos_imp_zdiv_nonneg_iff nat_add_distrib)
  have t: "target = - 0.833" by (simp add: target_def)
  have ts: "?ts = map (\<lambda>i. ?s + of_int (step * int i) / 1440) [0..<nat (1440 div step) + 1]"
    unfolding times_list_def n ..
  have al: "?alts = map (sun_alt loc) ?ts" by (simp add: alt_vals_def)
  have t0: "?ts ! 0 = ?s" using n by (simp add: nth_times_list)
  note l1 = last_times_list [OF assms, of ?s]
  note l2 = last_times_list_bounds [OF assms, of ?s]
  note l3 = last_times_list_full_day [OF assms, of ?s]
  have fc: "\<forall>i. (first_crossing ?alts = Some i)
      = (i + 1 < length ?alts \<and> ?alts ! i < target \<and> target \<le> ?alts ! (i + 1)
         \<and> (\<forall>j<i. \<not> (?alts ! j < target \<and> target \<le> ?alts ! (j + 1))))"
    by (simp add: first_crossing_Some_iff crossing_def)
  have r: "\<forall>i. first_crossing ?alts = Some i \<longrightarrow>
      ?r = Inr (?ts ! i + (target - ?alts ! i) / (?alts ! (i + 1) - ?alts ! i)
                  * (?ts ! (i + 1) - ?ts ! i))"
  proof (intro allI impI)
    fix i assume s: "first_crossing ?alts = Some i"
    then have c: "?alts ! i < target" "target \<le> ?alts ! (i + 1)"
      by (simp_all add: first_crossing_Some_iff crossing_def)
    have "frac (?alts ! i) (?alts ! (i + 1)) = (target - ?alts ! i) / (?alts ! (i + 1) - ?alts ! i)"
      using c by (rule frac_crossing(2))
    then show "?r = Inr (?ts ! i + (target - ?alts ! i) / (?alts ! (i + 1) - ?alts ! i)
                  * (?ts ! (i + 1) - ?ts ! i))"
      using s by (simp add: sunrise_unfold [OF assms] interpolate_def Let_def)
  qed
  have rn: "first_crossing ?alts = None \<longrightarrow> ?r = Inr ?s"
    by (simp add: sunrise_unfold [OF assms])
  show ?thesis
    unfolding Let_def time_from_local_localdt_def
    using t ts al t0 l1 l2 l3 fc r rn by (intro conjI) 
qed

lemma upt_3: "[0..<3] = [0, 1, 2]"
  by (simp add: upt_conv_Cons numeral_3_eq_3)

lemma times_list_720: "times_list 0 720 = [0, 1 / 2, 1]"
  by (simp add: times_list_def n_steps_def upt_3)

lemma upt_2: "[0..<2] = [0, 1]"
  by (simp add: upt_conv_Cons numeral_2_eq_2)

lemma alt_vals_720: "alt_vals sun_alt loc 0 720 = [sun_alt loc 0, sun_alt loc (1 / 2), sun_alt loc 1]"
  by (simp add: alt_vals_def times_list_720)

text \<open>
  Claim C1 as it is written says the samples reach 24:00 local for every positive step.
  With a step of 7 minutes the last sample is at 23:55.
\<close>

theorem sunrise_full_day_counterexample:
  "last (times_list (time_from_local_localdt 0 0) 7) \<noteq> time_from_local_localdt 0 0 + 1"
  by (simp add: last_times_list time_from_local_localdt_def)

text \<open>
  An instance: samples at 0, 12 and 24 hours with altitudes \<open>-2\<close>, 2 and 6 degrees.
\<close>

theorem sunrise_scan_interpolate_witness:
  "(0::int) < 720
   \<and> approximate_sunrise_utc_for_local_date (\<lambda>(l::unit) t. 8 * t - 2) 0 () 0 720 = Inr (1167 / 8000)"
proof -
  have h: "(0::int) < 720" by simp
  have fc: "first_crossing (alt_vals (\<lambda>(l::unit) t. 8 * t - 2) () 0 720) = Some 0"
    by (simp add: alt_vals_720 first_crossing_def crossing_def target_def upt_2)
  show ?thesis
    using h fc sunrise_scan_interpolate [OF h, of 0 0 "\<lambda>(l::unit) t. 8 * t - 2" "()"]
    by (simp add: Let_def time_from_local_localdt_def alt_vals_720 times_list_720 target_def)
qed

text \<open>
  An instance: a Sun that stays at \<open>-5\<close> degrees all day.
\<close>

theorem sunrise_fallback_iff_witness:
  "(0::int) < 720
   \<and> approximate_sunrise_utc_for_local_date (\<lambda>(l::unit) t. - 5) 0 () 0 720 = Inr 0"
proof -
  have h: "(0::int) < 720" by simp
  have n: "\<forall>i. i + 1 < length (alt_vals (\<lambda>(l::unit) t. - 5) () (0 - 0 / 24) 720) \<longrightarrow>
            \<not> (alt_vals (\<lambda>(l::unit) t. - 5) () (0 - 0 / 24) 720 ! i < target
               \<and> target \<le> alt_vals (\<lambda>(l::unit) t. - 5) () (0 - 0 / 24) 720 ! (i + 1))"
    by (simp add: alt_vals_def target_def)
  show ?thesis
    using h n sunrise_fallback_iff [OF h, of "\<lambda>(l::unit) t. - 5" 0 "()" 0]
    by (simp add: time_from_local_localdt_def)
qed

text \<open>
  An instance: samples at 0, 12 and 24 hours with altitudes \<open>-1\<close>, 1 and 3 degrees.
\<close>

theorem sunrise_interpolation_bounds_witness:
  "(0::int) < 720
   \<and> frac (- 1) 1 = 167 / 2000
   \<and> approximate_sunrise_utc_for_local_date (\<lambda>(l::unit) t. 4 * t - 1) 0 () 0 720 = Inr (167 / 4000)
   \<and> times_list 0 720 ! 0 < 167 / 4000 \<and> 167 / 4000 \<le> times_list 0 720 ! 1"
proof -
  have h: "(0::int) < 720" by simp
  let ?alts = "alt_vals (\<lambda>(l::unit) t. 4 * t - 1) () (0 - 0 / 24) 720"
  have a: "?alts = [- 1, 1, 3]" by (simp add: alt_vals_720)
  have i: "0 + 1 < length ?alts" unfolding a by simp
  have c0: "?alts ! 0 < target" unfolding a by (simp add: target_def)
  have c1: "target \<le> ?alts ! (0 + 1)" unfolding a by (simp add: target_def)
  have fc: "first_crossing ?alts = Some 0"
    unfolding a by (simp add: first_crossing_def crossing_def target_def upt_2)
  have v: "interpolate (times_list 0 720) [- 1, 1, 3] 0 = 167 / 4000"
    by (simp add: interpolate_def times_list_720 frac_def target_def)
  show ?thesis
    using h fc v sunrise_interpolation_bounds [OF h i c0 c1]
    unfolding a by (simp add: Let_def target_def times_list_720)
qed

subsection \<open>The alt/az inversion solver\<close>














subsection \<open>The sidereal-match solver: the residual and the window\<close>

lemma residual_range:
  "- 12 \<le> residual sidereal_time lon target_lst t" "residual sidereal_time lon target_lst t < 12"
  using py_mod_range [of 24 "sidereal_time t lon - target_lst + 12"]
  by (simp_all add: residual_def)

lemma widen_char:
  fixes f :: "real \<Rightarrow> real" and c :: real
  defines "L \<equiv> \<lambda>k::nat. c - 12 / 24 - real k * (6 / 24)"
    and "R \<equiv> \<lambda>k::nat. c + 12 / 24 + real k * (6 / 24)"
  shows "\<exists>k. m \<le> k \<and> k \<le> m + n
           \<and> widen n f (L m, R m, f (L m), f (R m)) = (L k, R k, f (L k), f (R k))
           \<and> (\<forall>j. m \<le> j \<and> j < k \<longrightarrow> 0 < f (L j) * f (R j))
           \<and> (k < m + n \<longrightarrow> f (L k) * f (R k) \<le> 0)"
proof (induction n arbitrary: m)
  case 0
  show ?case by (rule exI [of _ m]) simp
next
  case (Suc n)
  show ?case
  proof (cases "f (L m) * f (R m) \<le> 0")
    case True
    then show ?thesis by (intro exI [of _ m]) simp
  next
    case False
    have l: "L m - 1 / 4 = L (Suc m)" by (simp add: L_def field_simps)
    have r: "R m + 1 / 4 = R (Suc m)" by (simp add: R_def field_simps)
    from Suc.IH [of "Suc m"] obtain k where k: "Suc m \<le> k" "k \<le> Suc m + n"
      "widen n f (L (Suc m), R (Suc m), f (L (Suc m)), f (R (Suc m))) = (L k, R k, f (L k), f (R k))"
      "\<forall>j. Suc m \<le> j \<and> j < k \<longrightarrow> 0 < f (L j) * f (R j)"
      "k < Suc m + n \<longrightarrow> f (L k) * f (R k) \<le> 0"
      by blast
    have w: "widen (Suc n) f (L m, R m, f (L m), f (R m)) = (L k, R k, f (L k), f (R k))"
      using False k(3) by (simp add: Let_def l r)
    have a: "\<forall>j. m \<le> j \<and> j < k \<longrightarrow> 0 < f (L j) * f (R j)"
    proof (intro allI impI)
      fix j assume j: "m \<le> j \<and> j < k"
      show "0 < f (L j) * f (R j)"
      proof (cases "j = m")
        case True
        then show ?thesis using False by simp
      next
        case False
        then have "Suc m \<le> j \<and> j < k" using j by simp
        then show ?thesis using k(4) by blast
      qed
    qed
    show ?thesis
      using k(1,2,5) w a by (intro exI [of _ k]) simp
  qed
qed

text \<open>
  The window of the solver.  The first window is \<open>[approx - 12 h, approx + 12 h]\<close>;
  while the residuals at the two ends have a positive product the window grows by 6 hours
  on each side, at most 8 times; the loop stops at the first window \<open>k \<le> 8\<close> whose
  product is not positive.  If the product is still positive at the window reached, in
  particular if it is positive for all nine windows, the solver returns \<open>approx\<close>;
  otherwise it bisects that window.
\<close>

theorem find_time_for_lst_widening:
  "(let f = residual sidereal_time lon target_lst;
        L = (\<lambda>k::nat. approx - 12 / 24 - real k * (6 / 24));
        R = (\<lambda>k::nat. approx + 12 / 24 + real k * (6 / 24))
    in initial_bracket f approx = (L 0, R 0, f (L 0), f (R 0))
     \<and> (\<exists>k\<le>8. widen 8 f (initial_bracket f approx) = (L k, R k, f (L k), f (R k))
              \<and> (\<forall>j<k. 0 < f (L j) * f (R j))
              \<and> (k < 8 \<longrightarrow> f (L k) * f (R k) \<le> 0)
              \<and> (0 < f (L k) * f (R k) \<longrightarrow>
                    find_time_for_lst sidereal_time target_lst approx lon = approx)
              \<and> (f (L k) * f (R k) \<le> 0 \<longrightarrow>
                    find_time_for_lst sidereal_time target_lst approx lon
                      = bisect 60 f (L k, R k, f (L k), f (R k))))
     \<and> ((\<forall>j\<le>8. 0 < f (L j) * f (R j)) \<longrightarrow>
           find_time_for_lst sidereal_time target_lst approx lon = approx))"
proof -
  let ?f = "residual sidereal_time lon target_lst"
  let ?L = "\<lambda>k::nat. approx - 12 / 24 - real k * (6 / 24)"
  let ?R = "\<lambda>k::nat. approx + 12 / 24 + real k * (6 / 24)"
  let ?r = "find_time_for_lst sidereal_time target_lst approx lon"
  have p2: "initial_bracket ?f approx = (?L 0, ?R 0, ?f (?L 0), ?f (?R 0))"
    by (simp add: initial_bracket_def Let_def)
  from widen_char [of 0 8 ?f approx] obtain k where k: "k \<le> 8"
    "widen 8 ?f (?L 0, ?R 0, ?f (?L 0), ?f (?R 0)) = (?L k, ?R k, ?f (?L k), ?f (?R k))"
    "\<forall>j<k. 0 < ?f (?L j) * ?f (?R j)"
    "k < 8 \<longrightarrow> ?f (?L k) * ?f (?R k) \<le> 0"
    by auto
  have w: "widen 8 ?f (initial_bracket ?f approx) = (?L k, ?R k, ?f (?L k), ?f (?R k))"
    using k(2) p2 by simp
  have r1: "0 < ?f (?L k) * ?f (?R k) \<longrightarrow> ?r = approx"
    by (simp add: find_time_for_lst_def Let_def w)
  have r2: "?f (?L k) * ?f (?R k) \<le> 0 \<longrightarrow> ?r = bisect 60 ?f (?L k, ?R k, ?f (?L k), ?f (?R k))"
    by (simp add: find_time_for_lst_def Let_def w)
  have p3: "\<exists>k\<le>8. widen 8 ?f (initial_bracket ?f approx) = (?L k, ?R k, ?f (?L k), ?f (?R k))
              \<and> (\<forall>j<k. 0 < ?f (?L j) * ?f (?R j))
              \<and> (k < 8 \<longrightarrow> ?f (?L k) * ?f (?R k) \<le> 0)
              \<and> (0 < ?f (?L k) * ?f (?R k) \<longrightarrow> ?r = approx)
              \<and> (?f (?L k) * ?f (?R k) \<le> 0 \<longrightarrow> ?r = bisect 60 ?f (?L k, ?R k, ?f (?L k), ?f (?R k)))"
    using k(1,3,4) w r1 r2 by (intro exI [of _ k]) blast
  have p4: "(\<forall>j\<le>8. 0 < ?f (?L j) * ?f (?R j)) \<longrightarrow> ?r = approx"
    using k(1) r1 by blast
  show ?thesis
    unfolding Let_def using p2 p3 p4 by blast
qed

text \<open>
  An instance: a sidereal time that is always 0 and a target of 1 hour, so that the
  residual is \<open>-1\<close> everywhere.
\<close>

theorem find_time_for_lst_widening_witness:
  "find_time_for_lst (\<lambda>t lon. 0) 1 5 0 = 5"
proof -
  have c: "\<forall>j\<le>(8::nat). 0 < residual (\<lambda>t lon. 0) 0 1 (5 - 12 / 24 - real j * (6 / 24))
                           * residual (\<lambda>t lon. 0) 0 1 (5 + 12 / 24 + real j * (6 / 24))"
    by (simp add: residual_def py_mod_def)
  show ?thesis
    using c find_time_for_lst_widening [of "\<lambda>t lon. 0" 0 1 5]
    unfolding Let_def by blast
qed

text \<open>The residual in binary64 is at least \<open>-12\<close> and at most 12.\<close>

lemma residual_binary64_range:
  "- 12 \<le> residual_binary64 sidereal_time lon target_lst t
   \<and> residual_binary64 sidereal_time lon target_lst t \<le> 12"
proof -
  define y where "y = float_mod (fadd (fsub (sidereal_time t lon) target_lst) 12) 24"
  have "0 \<le> float_mod (fadd (fsub (sidereal_time t lon) target_lst) 12) (of_int 24)"
    and "float_mod (fadd (fsub (sidereal_time t lon) target_lst) 12) (of_int 24) \<le> of_int 24"
    by (rule float_mod_range; simp)+
  then have y: "0 \<le> y" "y \<le> 24" by (simp_all add: y_def)
  have lo: "of_int (- 12) \<le> y - 12" and hi: "y - 12 \<le> of_int 12" using y by simp_all
  have a: "\<bar>y - 12\<bar> < 2 ^ 53" using y by simp
  have "of_int (- 12) \<le> fl64 (y - 12)" using lo a by (rule fl64_ge_int)
  moreover have "fl64 (y - 12) \<le> of_int 12" using hi a by (rule fl64_le_int)
  ultimately show ?thesis by (simp add: residual_binary64_def fsub_def y_def)
qed

text \<open>
  Claim C5, where the code leaves it.  The residual is commented \<^verbatim>\<open># wrap to [-12, 12)\<close>.
  In binary64, at an instant whose sidereal time is 3.25 hours and for the target
  15.250000000000002, the double next above 15.25, the sum inside \<^verbatim>\<open>%\<close> is
  \<open>-1 / 2 ^ 49\<close>; adding 24 to it falls half way between two doubles and rounds to 24.0,
  and the residual is exactly 12, outside \<open>[-12, 12)\<close>.
\<close>

theorem residual_binary64_reaches_12:
  "residual_binary64 (\<lambda>t lon. 13 / 4) 0 (61 / 4 + 1 / 2 ^ 49) t = 12
   \<and> \<not> residual_binary64 (\<lambda>t lon. 13 / 4) 0 (61 / 4 + 1 / 2 ^ 49) t < 12"
proof -
  have s1: "fsub (13 / 4) (61 / 4 + 1 / 2 ^ 49) = - (12 + 1 / 2 ^ 49)"
  proof -
    have "fl64 (- (12 + 1 / 2 ^ 49)) = - (12 + 1 / 2 ^ 49)"
      by (rule fl64_exact_pos [of _ "- (12 * 2 ^ 49 + 1)" 3]) simp_all
    then show ?thesis by (simp add: fsub_def)
  qed
  have s2: "fadd (- (12 + 1 / 2 ^ 49)) 12 = - (1 / 2 ^ 49)"
  proof -
    have "fl64 (- (1 / 2 ^ 49)) = - (1 / 2 ^ 49)"
      by (rule fl64_exact_neg [of _ "- (2 ^ 52)" 49]) simp_all
    then show ?thesis by (simp add: fadd_def)
  qed
  have s3: "float_mod (- (1 / 2 ^ 49)) 24 = 24"
  proof -
    have "fmod (- (1 / 2 ^ 49)) 24 = - (1 / 2 ^ 49)" by (rule fmod_small) simp_all
    then show ?thesis using fl64_wrap_tie_24 by (simp add: float_mod_def Let_def)
  qed
  have s4: "fsub 24 12 = 12"
  proof -
    have "fl64 12 = 12" by (rule fl64_exact_pos [of _ "12 * 2 ^ 49" 3]) simp_all
    then show ?thesis by (simp add: fsub_def)
  qed
  have "residual_binary64 (\<lambda>t lon. 13 / 4) 0 (61 / 4 + 1 / 2 ^ 49) t = 12"
    unfolding residual_binary64_def s1 s2 s3 s4 ..
  then show ?thesis by simp
qed

subsection \<open>Star positions\<close>

lemma clip_range: "lower \<le> upper \<Longrightarrow> lower \<le> clip x lower upper \<and> clip x lower upper \<le> upper"
  by (simp add: clip_def)

text \<open>
  Claim C6.  For a catalogue that is not empty the computation returns one row for each
  star, in order; in each row the azimuth is at least 0 and below 360, the altitude is
  between \<open>-90\<close> and 90, and the visibility flag says whether the altitude the library
  gave, before clipping, is above 0.
\<close>

theorem star_positions_well_formed:
  assumes "stars \<noteq> []"
  shows "\<exists>rows. compute_stars_positions_for_time transform_to t loc stars = Inr rows
           \<and> length rows = length stars
           \<and> (\<forall>i<length stars.
                 0 \<le> az_deg (rows ! i) \<and> az_deg (rows ! i) < 360
               \<and> - 90 \<le> alt_deg (rows ! i) \<and> alt_deg (rows ! i) \<le> 90
               \<and> visible (rows ! i)
                   = (0 < fst (transform_to t loc (ra_h (stars ! i)) (dec_deg (stars ! i))))
               \<and> az_deg (rows ! i)
                   = py_mod (snd (transform_to t loc (ra_h (stars ! i)) (dec_deg (stars ! i)))) 360
               \<and> alt_deg (rows ! i)
                   = clip (fst (transform_to t loc (ra_h (stars ! i)) (dec_deg (stars ! i)))) (- 90) 90)"
proof -
  let ?rows = "map (\<lambda>d. d\<lparr>alt_deg := clip (alt_deg d) (- 90) 90\<rparr>)
                 (map (\<lambda>d. d\<lparr>az_deg := py_mod (az_deg d) 360\<rparr>)
                    (map (star_row transform_to t loc) stars))"
  have r: "compute_stars_positions_for_time transform_to t loc stars = Inr ?rows"
    using assms by (simp add: compute_stars_positions_for_time_def Let_def)
  have l: "length ?rows = length stars" by simp
  have p: "\<forall>i<length stars.
                 0 \<le> az_deg (?rows ! i) \<and> az_deg (?rows ! i) < 360
               \<and> - 90 \<le> alt_deg (?rows ! i) \<and> alt_deg (?rows ! i) \<le> 90
               \<and> visible (?rows ! i)
                   = (0 < fst (transform_to t loc (ra_h (stars ! i)) (dec_deg (stars ! i))))
               \<and> az_deg (?rows ! i)
                   = py_mod (snd (transform_to t loc (ra_h (stars ! i)) (dec_deg (stars ! i)))) 360
               \<and> alt_deg (?rows ! i)
                   = clip (fst (transform_to t loc (ra_h (stars ! i)) (dec_deg (stars ! i)))) (- 90) 90"
    using py_mod_range [of 360] clip_range [of "- 90" 90]
    by (simp add: star_row_def Let_def)
  show ?thesis using r l p by blast
qed

text \<open>
  An instance: one star for which the library is taken to give an altitude of 100 and an
  azimuth of \<open>-30\<close>.
\<close>

theorem star_positions_well_formed_witness:
  "compute_stars_positions_for_time (\<lambda>t (l::unit) ra dec. (100, - 30)) 0 ()
     [\<lparr>name = ''Dhruva (Polaris)'', ra_h = 2.530301, dec_deg = 89.264109, mag = 1.98\<rparr>]
   = Inr [\<lparr>name = ''Dhruva (Polaris)'', ra_h = 2.530301, dec_deg = 89.264109, mag = 1.98,
            alt_deg = 90, az_deg = 330, visible = True\<rparr>]"
proof -
  have h: "[\<lparr>name = ''Dhruva (Polaris)'', ra_h = 2.530301, dec_deg = 89.264109, mag = 1.98\<rparr>] \<noteq> []"
    by simp
  have v: "py_mod (- 30) 360 = 330" "clip 100 (- 90) 90 = 90"
    by (simp_all add: py_mod_def clip_def)
  show ?thesis
    using star_positions_well_formed [OF h, of "\<lambda>t (l::unit) ra dec. (100, - 30)" 0 "()"] v
    by (auto simp: compute_stars_positions_for_time_def star_row_def Let_def)
qed

subsection \<open>Locations and instants\<close>

text \<open>
  Claim C9, as the code has it.  \<^verbatim>\<open>to_earthlocation\<close> returns what the library's
  constructor returns for the same three values, and so fails exactly when the
  constructor does, which is for a latitude outside \<open>[-90, 90]\<close> only;
  \<^verbatim>\<open>time_from_local_localdt\<close> is the subtraction of the offset and cannot fail.
\<close>

theorem to_earthlocation_passes_through:
  "to_earthlocation EarthLocation lat_deg lon_deg height_m = EarthLocation lat_deg lon_deg height_m
   \<and> isl (to_earthlocation from_geodetic lat_deg lon_deg height_m) = (lat_deg < - 90 \<or> 90 < lat_deg)
   \<and> time_from_local_localdt local_dt tz_offset_hours = local_dt - tz_offset_hours / 24"
  by (simp add: to_earthlocation_def from_geodetic_def time_from_local_localdt_def)

text \<open>
  Claim C9 as it is written says a longitude or a height out of range is rejected.  A
  longitude of 400 degrees with a height of \<open>-20000\<close> km gives a location.
\<close>

theorem to_earthlocation_accepts_counterexample:
  "\<not> (- 180 \<le> (400::real) \<and> (400::real) \<le> 360)
   \<and> to_earthlocation from_geodetic 0 400 (- 20000000)
       = Inr \<lparr>loc_lat = 0, loc_lon = 40, loc_height = - 20000000\<rparr>"
  by (simp add: to_earthlocation_def from_geodetic_def py_mod_def)

subsection \<open>The sidereal-match solver: bisection at the jump of the wrap\<close>

lemma py_mod_piece:
  assumes "0 < m" "m * of_int k \<le> y" "y < m * (of_int k + 1)"
  shows "py_mod y m = y - m * of_int k"
proof -
  have "of_int k \<le> y / m" using assms by (simp add: pos_le_divide_eq mult.commute)
  moreover have "y / m < of_int k + 1" using assms by (simp add: pos_divide_less_eq mult.commute)
  ultimately have "\<lfloor>y / m\<rfloor> = k" by linarith
  then show ?thesis by (simp add: py_mod_def)
qed

lemma py_mod_py_mod_add:
  assumes "0 < m"
  shows "py_mod (py_mod a m + b) m = py_mod (a + b) m"
proof -
  have "(a - m * of_int \<lfloor>a / m\<rfloor> + b) / m = (a + b) / m - of_int \<lfloor>a / m\<rfloor>"
    using assms by (simp add: field_simps)
  then have fl: "\<lfloor>(a - m * of_int \<lfloor>a / m\<rfloor> + b) / m\<rfloor> = \<lfloor>(a + b) / m\<rfloor> - \<lfloor>a / m\<rfloor>"
    by simp
  have "py_mod (py_mod a m + b) m
      = a - m * of_int \<lfloor>a / m\<rfloor> + b - m * of_int (\<lfloor>(a + b) / m\<rfloor> - \<lfloor>a / m\<rfloor>)"
    unfolding py_mod_def fl ..
  also have "\<dots> = py_mod (a + b) m"
    by (simp add: py_mod_def algebra_simps)
  finally show ?thesis .
qed

lemma bisect_jump:
  assumes "left < d" "d \<le> right" "0 < fl" "1 / 10 ^ 7 \<le> c"
    and "\<forall>x. left \<le> x \<and> x < d \<longrightarrow> c \<le> f x"
    and "\<forall>x. d \<le> x \<and> x \<le> right \<longrightarrow> f x \<le> - c"
  shows "left \<le> bisect n f (left, right, fl, fr) \<and> bisect n f (left, right, fl, fr) \<le> right
       \<and> \<bar>bisect n f (left, right, fl, fr) - d\<bar> \<le> (right - left) / 2 ^ n"
  using assms
proof (induction n arbitrary: left right fl fr)
  case 0
  then show ?case by (simp add: abs_le_iff field_simps)
next
  case (Suc n)
  let ?mid = "(left + right) / 2"
  have cpos: "0 < c" using Suc.prems(4) by (rule less_le_trans [rotated]) simp
  have m: "left \<le> ?mid" "?mid \<le> right" using Suc.prems(1,2) by simp_all
  show ?case
  proof (cases "?mid < d")
    case True
    then have fm: "c \<le> f ?mid" using Suc.prems(5) m by blast
    then have big: "\<not> \<bar>f ?mid\<bar> < 1 / 10 ^ 7" using Suc.prems(4) by linarith
    have pos: "0 < fl * f ?mid" using Suc.prems(3) fm cpos by (intro mult_pos_pos) linarith+
    have step: "bisect (Suc n) f (left, right, fl, fr) = bisect n f (?mid, right, f ?mid, fr)"
      using big pos by (simp add: Let_def)
    have ih: "?mid \<le> bisect n f (?mid, right, f ?mid, fr)
        \<and> bisect n f (?mid, right, f ?mid, fr) \<le> right
        \<and> \<bar>bisect n f (?mid, right, f ?mid, fr) - d\<bar> \<le> (right - ?mid) / 2 ^ n"
    proof (rule Suc.IH)
      show "?mid < d" by (rule True)
      show "d \<le> right" by (rule Suc.prems(2))
      show "0 < f ?mid" using fm cpos by linarith
      show "1 / 10 ^ 7 \<le> c" by (rule Suc.prems(4))
      show "\<forall>x. ?mid \<le> x \<and> x < d \<longrightarrow> c \<le> f x" using Suc.prems(5) m by auto
      show "\<forall>x. d \<le> x \<and> x \<le> right \<longrightarrow> f x \<le> - c" by (rule Suc.prems(6))
    qed
    have w: "(right - ?mid) / 2 ^ n = (right - left) / 2 ^ Suc n" by (simp add: field_simps)
    show ?thesis unfolding step using ih m w by auto
  next
    case False
    then have dm: "d \<le> ?mid" by simp
    then have fm: "f ?mid \<le> - c" using Suc.prems(6) m by blast
    then have big: "\<not> \<bar>f ?mid\<bar> < 1 / 10 ^ 7" using Suc.prems(4) by linarith
    have neg: "fl * f ?mid \<le> 0" using Suc.prems(3) fm cpos
      by (intro mult_nonneg_nonpos) linarith+
    have step: "bisect (Suc n) f (left, right, fl, fr) = bisect n f (left, ?mid, fl, f ?mid)"
      using big neg by (simp add: Let_def)
    have ih: "left \<le> bisect n f (left, ?mid, fl, f ?mid)
        \<and> bisect n f (left, ?mid, fl, f ?mid) \<le> ?mid
        \<and> \<bar>bisect n f (left, ?mid, fl, f ?mid) - d\<bar> \<le> (?mid - left) / 2 ^ n"
    proof (rule Suc.IH)
      show "left < d" by (rule Suc.prems(1))
      show "d \<le> ?mid" by (rule dm)
      show "0 < fl" by (rule Suc.prems(3))
      show "1 / 10 ^ 7 \<le> c" by (rule Suc.prems(4))
      show "\<forall>x. left \<le> x \<and> x < d \<longrightarrow> c \<le> f x" by (rule Suc.prems(5))
      show "\<forall>x. d \<le> x \<and> x \<le> ?mid \<longrightarrow> f x \<le> - c" using Suc.prems(6) m by auto
    qed
    have w: "(?mid - left) / 2 ^ n = (right - left) / 2 ^ Suc n" by (simp add: field_simps)
    show ?thesis unfolding step using ih m w by auto
  qed
qed

lemma residual_mean:
  "residual mean_sidereal_time 0 (6752477 / 10 ^ 6) t
     = py_mod (23944897558 / 10 ^ 9 + 24.06570982441908 * (t - 2451545)) 24 - 12"
proof -
  have "residual mean_sidereal_time 0 (6752477 / 10 ^ 6) t
      = py_mod (py_mod (18.697374558 + 24.06570982441908 * (t - 2451545)) 24 + (12 - 6752477 / 10 ^ 6)) 24 - 12"
    by (simp add: residual_def mean_sidereal_time_def algebra_simps)
  also have "\<dots> = py_mod (18.697374558 + 24.06570982441908 * (t - 2451545) + (12 - 6752477 / 10 ^ 6)) 24 - 12"
    by (simp only: py_mod_py_mod_add [of 24, simplified])
  also have "\<dots> = py_mod (23944897558 / 10 ^ 9 + 24.06570982441908 * (t - 2451545)) 24 - 12"
    by (simp add: algebra_simps)
  finally show ?thesis .
qed

lemma py_mod_24_pieces:
  fixes u :: real
  shows "0 \<le> u \<Longrightarrow> u < 55102442 / 10 ^ 9
           \<Longrightarrow> py_mod (23944897558 / 10 ^ 9 + u) 24 = 23944897558 / 10 ^ 9 + u"
    and "55102442 / 10 ^ 9 \<le> u \<Longrightarrow> u < 24
           \<Longrightarrow> py_mod (23944897558 / 10 ^ 9 + u) 24 = 23944897558 / 10 ^ 9 + u - 24"
    and "24055102442 / 10 ^ 9 \<le> u \<Longrightarrow> u < 48
           \<Longrightarrow> py_mod (23944897558 / 10 ^ 9 + u) 24 = 23944897558 / 10 ^ 9 + u - 48"
proof -
  let ?y = "23944897558 / 10 ^ 9 + u"
  {
    assume "0 \<le> u" "u < 55102442 / 10 ^ 9"
    then have "24 * real_of_int 0 \<le> ?y" "?y < 24 * (real_of_int 0 + 1)" by simp_all
    then have "py_mod ?y 24 = ?y - 24 * real_of_int 0" by (intro py_mod_piece) simp_all
    then show "py_mod ?y 24 = ?y" by simp
  next
    assume "55102442 / 10 ^ 9 \<le> u" "u < 24"
    then have "24 * real_of_int 1 \<le> ?y" "?y < 24 * (real_of_int 1 + 1)" by simp_all
    then have "py_mod ?y 24 = ?y - 24 * real_of_int 1" by (intro py_mod_piece) simp_all
    then show "py_mod ?y 24 = ?y - 24" by simp
  next
    assume "24055102442 / 10 ^ 9 \<le> u" "u < 48"
    then have "24 * real_of_int 2 \<le> ?y" "?y < 24 * (real_of_int 2 + 1)" by simp_all
    then have "py_mod ?y 24 = ?y - 24 * real_of_int 2" by (intro py_mod_piece) simp_all
    then show "py_mod ?y 24 = ?y - 48" by simp
  }
qed

lemma residual_mean_before_jump:
  assumes "0 \<le> 24.06570982441908 * (t - 2451545)"
    and "24.06570982441908 * (t - 2451545) < 55102442 / 10 ^ 9"
  shows "residual mean_sidereal_time 0 (6752477 / 10 ^ 6) t
           = 23944897558 / 10 ^ 9 + 24.06570982441908 * (t - 2451545) - 12"
  unfolding residual_mean py_mod_24_pieces(1) [OF assms] ..

lemma residual_mean_after_jump:
  assumes "55102442 / 10 ^ 9 \<le> 24.06570982441908 * (t - 2451545)"
    and "24.06570982441908 * (t - 2451545) < 24"
  shows "residual mean_sidereal_time 0 (6752477 / 10 ^ 6) t
           = 23944897558 / 10 ^ 9 + 24.06570982441908 * (t - 2451545) - 24 - 12"
  unfolding residual_mean py_mod_24_pieces(2) [OF assms] ..

lemma residual_mean_next_day:
  assumes "24055102442 / 10 ^ 9 \<le> 24.06570982441908 * (t - 2451545)"
    and "24.06570982441908 * (t - 2451545) < 48"
  shows "residual mean_sidereal_time 0 (6752477 / 10 ^ 6) t
           = 23944897558 / 10 ^ 9 + 24.06570982441908 * (t - 2451545) - 48 - 12"
  unfolding residual_mean py_mod_24_pieces(3) [OF assms] ..

lemma widen_stop:
  "fl * fr \<le> 0 \<Longrightarrow> widen (Suc n) f (left, right, fl, fr) = (left, right, fl, fr)"
  by simp

lemma bisect_left_step:
  assumes "(left + right) / 2 = mid" "\<not> \<bar>f mid\<bar> < 1 / 10 ^ 7" "fl * f mid \<le> 0"
  shows "bisect (Suc n) f (left, right, fl, fr) = bisect n f (left, mid, fl, f mid)"
  using assms by (simp add: Let_def)

text \<open>
  Claim C2 says that when the solver brackets, the sidereal time at the instant it
  returns is the target up to the tolerance.  Here the solver runs with the target 6.752477
  hours (the right ascension of Sirius in the catalogue), the approximate instant
  2451545.5 (2000-01-02 00:00 UTC) and longitude 0.  The residuals at the two ends of the
  first window have a product that is not positive, and the window holds an instant with
  residual 0; but the sign change the bisection follows is the jump of the wrapped
  residual from 12 to \<open>-12\<close>, and the instant returned, within 0.004 days of the left end,
  has a residual of at least 11.94 hours in absolute value.
\<close>

theorem find_time_for_lst_wrap_jump:
  "residual mean_sidereal_time 0 (6752477 / 10 ^ 6) (4903091 / 2 - 12 / 24)
     * residual mean_sidereal_time 0 (6752477 / 10 ^ 6) (4903091 / 2 + 12 / 24) \<le> 0
   \<and> (\<exists>t. 4903091 / 2 - 12 / 24 \<le> t \<and> t \<le> 4903091 / 2 + 12 / 24
          \<and> residual mean_sidereal_time 0 (6752477 / 10 ^ 6) t = 0)
   \<and> 2451545 \<le> find_time_for_lst mean_sidereal_time (6752477 / 10 ^ 6) (4903091 / 2) 0
   \<and> find_time_for_lst mean_sidereal_time (6752477 / 10 ^ 6) (4903091 / 2) 0 \<le> 2451545 + 4 / 1000
   \<and> 1194 / 100 \<le> \<bar>residual mean_sidereal_time 0 (6752477 / 10 ^ 6)
                       (find_time_for_lst mean_sidereal_time (6752477 / 10 ^ 6) (4903091 / 2) 0)\<bar>"
proof -
  define f where "f = residual mean_sidereal_time 0 (6752477 / 10 ^ 6)"
  define rho :: real where "rho = 24.06570982441908"
  define d :: real where "d = 2451545 + (55102442 / 10 ^ 9) / rho"
  have rho_pos: "0 < rho" by (simp add: rho_def)
  have before: "f t = 23944897558 / 10 ^ 9 + rho * (t - 2451545) - 12"
    if "0 \<le> rho * (t - 2451545)" "rho * (t - 2451545) < 55102442 / 10 ^ 9" for t
    using that unfolding f_def rho_def by (rule residual_mean_before_jump)
  have after: "f t = 23944897558 / 10 ^ 9 + rho * (t - 2451545) - 24 - 12"
    if "55102442 / 10 ^ 9 \<le> rho * (t - 2451545)" "rho * (t - 2451545) < 24" for t
    using that unfolding f_def rho_def by (rule residual_mean_after_jump)
  have next_day: "f t = 23944897558 / 10 ^ 9 + rho * (t - 2451545) - 48 - 12"
    if "24055102442 / 10 ^ 9 \<le> rho * (t - 2451545)" "rho * (t - 2451545) < 48" for t
    using that unfolding f_def rho_def by (rule residual_mean_next_day)
  have fl: "f 2451545 = 11944897558 / 10 ^ 9"
    using before [of 2451545] by simp
  have fr: "f 2451546 = - (11989392617580920 / 10 ^ 15)"
    using next_day [of 2451546] by (simp add: rho_def)
  have fm: "f (4903091 / 2) = - (22247529790460 / 10 ^ 15)"
    using after [of "4903091 / 2"] by (simp add: rho_def)
  have root: "f (2451545 + (12055102442 / 10 ^ 9) / rho) = 0"
  proof -
    have u: "rho * (2451545 + (12055102442 / 10 ^ 9) / rho - 2451545) = 12055102442 / 10 ^ 9"
      using rho_pos by simp
    show ?thesis using after [of "2451545 + (12055102442 / 10 ^ 9) / rho"] unfolding u by simp
  qed
  have root_in: "2451545 \<le> 2451545 + (12055102442 / 10 ^ 9) / rho"
    "2451545 + (12055102442 / 10 ^ 9) / rho \<le> 2451546"
    by (simp_all add: rho_def)
  have ib: "initial_bracket f (4903091 / 2) = (2451545, 2451546, f 2451545, f 2451546)"
    by (simp add: initial_bracket_def Let_def)
  have eight: "(8::nat) = Suc 7" and sixty: "(60::nat) = Suc 59" by simp_all
  have w: "widen 8 f (2451545, 2451546, f 2451545, f 2451546)
             = (2451545, 2451546, f 2451545, f 2451546)"
    unfolding eight by (rule widen_stop) (simp add: fl fr)
  have r: "find_time_for_lst mean_sidereal_time (6752477 / 10 ^ 6) (4903091 / 2) 0
             = bisect 60 f (2451545, 2451546, f 2451545, f 2451546)"
    unfolding find_time_for_lst_def f_def [symmetric] Let_def ib w
    by (simp add: fl fr)
  have b1: "bisect 60 f (2451545, 2451546, f 2451545, f 2451546)
             = bisect 59 f (2451545, 4903091 / 2, f 2451545, f (4903091 / 2))"
    unfolding sixty by (rule bisect_left_step) (simp_all add: fl fm)
  have d_gt: "2451545 < d" by (simp add: d_def rho_def)
  have d_le: "d \<le> 4903091 / 2" by (simp add: d_def rho_def)
  have u_d: "rho * (x - 2451545) = 55102442 / 10 ^ 9 + rho * (x - d)" for x
    using rho_pos by (simp add: d_def algebra_simps)
  have left_part: "\<forall>x. 2451545 \<le> x \<and> x < d \<longrightarrow> 16 / 1000 \<le> f x"
  proof (intro allI impI)
    fix x assume x: "2451545 \<le> x \<and> x < d"
    then have u0: "0 \<le> rho * (x - 2451545)" using rho_pos by simp
    have "rho * (x - d) < 0" using x rho_pos by (simp add: mult_pos_neg)
    then have u1: "rho * (x - 2451545) < 55102442 / 10 ^ 9" unfolding u_d by simp
    show "16 / 1000 \<le> f x" unfolding before [OF u0 u1] using u0 by simp
  qed
  have right_part: "\<forall>x. d \<le> x \<and> x \<le> 4903091 / 2 \<longrightarrow> f x \<le> - (16 / 1000)"
  proof (intro allI impI)
    fix x assume x: "d \<le> x \<and> x \<le> 4903091 / 2"
    then have "0 \<le> rho * (x - d)" using rho_pos by simp
    then have u0: "55102442 / 10 ^ 9 \<le> rho * (x - 2451545)" unfolding u_d by simp
    have "rho * (x - 2451545) \<le> rho * (4903091 / 2 - 2451545)"
      using x rho_pos by (intro mult_left_mono) simp_all
    then have u1: "rho * (x - 2451545) \<le> 12032854912209540 / 10 ^ 15" by (simp add: rho_def)
    then have u2: "rho * (x - 2451545) < 24" by simp
    show "f x \<le> - (16 / 1000)" unfolding after [OF u0 u2] using u1 by simp
  qed
  define res where "res = bisect 59 f (2451545, 4903091 / 2, f 2451545, f (4903091 / 2))"
  have inv: "2451545 \<le> res \<and> res \<le> 4903091 / 2
       \<and> \<bar>res - d\<bar> \<le> (4903091 / 2 - 2451545) / 2 ^ 59"
    unfolding res_def
  proof (rule bisect_jump [OF d_gt d_le _ _ left_part])
    show "0 < f 2451545" by (simp add: fl)
    show "(1::real) / 10 ^ 7 \<le> 16 / 1000" by simp
    show "\<forall>x. d \<le> x \<and> x \<le> 4903091 / 2 \<longrightarrow> f x \<le> - (16 / 1000)" by (rule right_part)
  qed
  have near: "\<bar>res - d\<bar> \<le> 1 / 1000"
  proof -
    have "(4903091 / 2 - 2451545) / 2 ^ 59 \<le> (1::real) / 1000" by simp
    with inv show ?thesis by linarith
  qed
  have res_le: "res \<le> 2451545 + 4 / 1000"
  proof -
    have "d \<le> 2451545 + 3 / 1000" by (simp add: d_def rho_def)
    with near show ?thesis by linarith
  qed
  have far: "1194 / 100 \<le> \<bar>f res\<bar>"
  proof (cases "res < d")
    case True
    then have u0: "0 \<le> rho * (res - 2451545)" using inv rho_pos by simp
    have "rho * (res - d) < 0" using True rho_pos by (simp add: mult_pos_neg)
    then have u1: "rho * (res - 2451545) < 55102442 / 10 ^ 9" unfolding u_d by simp
    define u where "u = rho * (res - 2451545)"
    have "f res = 23944897558 / 10 ^ 9 + u - 12"
      unfolding u_def by (rule before [OF u0 u1])
    moreover have "0 \<le> u" unfolding u_def by (rule u0)
    ultimately have "1194 / 100 \<le> f res" by simp
    then show ?thesis by linarith
  next
    case False
    then have "0 \<le> rho * (res - d)" using rho_pos by simp
    then have u0: "55102442 / 10 ^ 9 \<le> rho * (res - 2451545)" unfolding u_d by simp
    have "res - d \<le> 1 / 1000" using near by linarith
    then have "rho * (res - d) \<le> rho * (1 / 1000)"
      using rho_pos by (intro mult_left_mono) simp_all
    then have u1: "rho * (res - 2451545) \<le> 55102442 / 10 ^ 9 + rho * (1 / 1000)"
      unfolding u_d by simp
    then have u1': "rho * (res - 2451545) \<le> 8 / 100" by (simp add: rho_def)
    then have u2: "rho * (res - 2451545) < 24" by simp
    define u where "u = rho * (res - 2451545)"
    have "f res = 23944897558 / 10 ^ 9 + u - 24 - 12"
      unfolding u_def by (rule after [OF u0 u2])
    moreover have "u \<le> 8 / 100" unfolding u_def by (rule u1')
    ultimately have "f res \<le> - (1194 / 100)" by simp
    then show ?thesis by linarith
  qed
  have total: "find_time_for_lst mean_sidereal_time (6752477 / 10 ^ 6) (4903091 / 2) 0 = res"
    unfolding r b1 res_def ..
  have brk: "f (4903091 / 2 - 12 / 24) * f (4903091 / 2 + 12 / 24) \<le> 0"
    by (simp add: fl fr)
  have ex: "\<exists>t. 4903091 / 2 - 12 / 24 \<le> t \<and> t \<le> 4903091 / 2 + 12 / 24 \<and> f t = 0"
    using root root_in by (intro exI [of _ "2451545 + (12055102442 / 10 ^ 9) / rho"]) simp
  show ?thesis
    unfolding total using brk ex inv res_le far unfolding f_def by blast
qed

end
